theory Spec2Isabelle
  imports Complex_Main "HOL-Library.Log_Nat"
begin

section \<open>JavaScript values\<close>

text \<open>
  The client is dynamically typed: what the server sends back is whatever
  \<^verbatim>\<open>response.json()\<close> parses.  A parsed value is a \<open>jsval\<close>; \<open>JUndefined\<close> is
  what reading an absent property yields.  Numbers carry the rational value of the
  double.  Strings are lists of code units below 256.  An object is the list of its
  own properties.
\<close>

datatype jsval =
    JUndefined
  | JNull
  | JBool bool
  | JNum rat
  | JStr string
  | JArr "jsval list"
  | JObj "(string \<times> jsval) list"

text \<open>ToBoolean, as used by \<^verbatim>\<open>if (v)\<close>, \<^verbatim>\<open>!v\<close> and \<^verbatim>\<open>a || b\<close>.\<close>

fun truthy :: "jsval \<Rightarrow> bool" where
  "truthy JUndefined = False"
| "truthy JNull = False"
| "truthy (JBool b) = b"
| "truthy (JNum x) = (x \<noteq> 0)"
| "truthy (JStr s) = (s \<noteq> [])"
| "truthy (JArr _) = True"
| "truthy (JObj _) = True"

text \<open>
  \<^verbatim>\<open>v.k\<close> for a value that is neither \<^verbatim>\<open>null\<close> nor \<^verbatim>\<open>undefined\<close> and a name \<open>k\<close> that
  no built-in prototype defines (\<^verbatim>\<open>status\<close>, \<^verbatim>\<open>error_message\<close>, \<^verbatim>\<open>percentage\<close>,
  \<^verbatim>\<open>batch_id\<close>, \<^verbatim>\<open>job_id\<close>): the own property of an object, \<^verbatim>\<open>undefined\<close> otherwise.
  Reading a property of \<^verbatim>\<open>null\<close> or \<^verbatim>\<open>undefined\<close> throws; the callers below test
  \<open>nullish\<close> first and raise \<open>TypeError\<close> there.
\<close>

fun field :: "string \<Rightarrow> jsval \<Rightarrow> jsval" where
  "field k (JObj kvs) = (case map_of kvs k of Some v \<Rightarrow> v | None \<Rightarrow> JUndefined)"
| "field k _ = JUndefined"

fun nullish :: "jsval \<Rightarrow> bool" where
  "nullish JUndefined = True"
| "nullish JNull = True"
| "nullish _ = False"

section \<open>Errors and HTTP responses\<close>

text \<open>
  The message of \<^verbatim>\<open>new Error(x)\<close> is the string conversion of \<open>x\<close>.  For a string that
  is the string itself; the conversion of any other value is kept symbolic.
  \<open>MsgOfInherited k\<close> is the conversion of the member \<open>k\<close> of \<^verbatim>\<open>Object.prototype\<close>.
\<close>

datatype msg = MsgText string | MsgOfValue jsval | MsgOfInherited string

text \<open>
  \<open>Error m t\<close> is \<^verbatim>\<open>new Error(m)\<close> with the property \<^verbatim>\<open>errorType\<close> set to \<open>t\<close> when
  it is \<open>Some t\<close>.  \<open>TypeError\<close> is raised by the runtime, \<open>SyntaxError\<close> by
  \<^verbatim>\<open>response.json()\<close> on a body that is not JSON, and \<open>NetworkError\<close> stands for the
  rejection of \<^verbatim>\<open>fetch\<close> itself.
\<close>

datatype js_error =
    Error msg "string option"
  | TypeError
  | SyntaxError
  | NetworkError

record response =
  status_code :: nat
  body :: "jsval option"

text \<open>\<^verbatim>\<open>response.ok\<close>: the status is in the range 200 to 299.\<close>

definition ok :: "response \<Rightarrow> bool" where
  "ok r = (200 \<le> status_code r \<and> status_code r \<le> 299)"

datatype fetch_result = FetchRejected | Fetched response

text \<open>\<^verbatim>\<open>response.json()\<close>\<close>

definition json :: "response \<Rightarrow> js_error + jsval" where
  "json r = (case body r of None \<Rightarrow> Inl SyntaxError | Some j \<Rightarrow> Inr j)"

section \<open>backend.js: getJobStatus\<close>

definition not_found_status :: jsval where
  "not_found_status = JObj [(''status'', JStr ''not_found'')]"

definition getJobStatus :: "fetch_result \<Rightarrow> js_error + jsval" where
  "getJobStatus fr =
     (case fr of
        FetchRejected \<Rightarrow> Inl NetworkError
      | Fetched r \<Rightarrow>
          if \<not> ok r then
            (if status_code r = 404 then Inr not_found_status
             else Inl (Error (MsgText ''Failed to get job status'') None))
          else json r)"

section \<open>backend.js: uploadImages and uploadImagesChunked\<close>

definition CHUNK_SIZE :: nat where
  "CHUNK_SIZE = 100"

text \<open>Decimal digits of a natural number, as a template literal prints it.\<close>

fun show_nat :: "nat \<Rightarrow> string" where
  "show_nat n =
     (if n < 10 then [''0123456789'' ! n]
      else show_nat (n div 10) @ [''0123456789'' ! (n mod 10)])"

declare show_nat.simps [simp del]

text \<open>
  One \<^verbatim>\<open>POST /upload/images\<close>: the files appended to the form and the
  \<^verbatim>\<open>batch_id\<close> field, when one was appended.
\<close>

record 'f upload_call =
  call_files :: "'f list"
  call_batch_id :: "jsval option"

text \<open>
  What a call of the uploader does: the requests it issues, in order, the arguments of
  each invocation of \<^verbatim>\<open>onProgress\<close>, in order, and the value returned (\<open>Inr\<close>) or the
  exception thrown (\<open>Inl\<close>).  The parameter \<open>onProgress\<close> says whether a callback was
  passed (it is \<^verbatim>\<open>null\<close> otherwise).
\<close>

record 'f upload_run =
  calls :: "'f upload_call list"
  progress :: "(nat \<times> nat) list"
  result :: "js_error + jsval"

definition uploadImages :: "fetch_result \<Rightarrow> 'f list \<Rightarrow> bool \<Rightarrow> 'f upload_run" where
  "uploadImages fr files onProgress =
     \<lparr>calls = [\<lparr>call_files = files, call_batch_id = None\<rparr>],
      progress = [],
      result =
        (case fr of
           FetchRejected \<Rightarrow> Inl NetworkError
         | Fetched r \<Rightarrow>
             if \<not> ok r then Inl (Error (MsgText ''Failed to upload images'') None)
             else json r)\<rparr>"

text \<open>
  The loop of \<open>uploadImagesChunked\<close>, from index \<open>i\<close> on, with the current values of
  \<^verbatim>\<open>batchId\<close> and \<^verbatim>\<open>uploadedCount\<close>.  \<open>server k\<close> is the outcome of the \<open>k\<close>-th
  upload request (counted from 0); the request of the iteration at index \<open>i\<close> is number
  \<open>i div CHUNK_SIZE\<close>.  \<^verbatim>\<open>result.batch_id\<close> is read only while \<^verbatim>\<open>batchId\<close> is falsy.
\<close>

function upload_loop ::
  "(nat \<Rightarrow> fetch_result) \<Rightarrow> 'f list \<Rightarrow> bool \<Rightarrow> nat \<Rightarrow> jsval \<Rightarrow> nat \<Rightarrow> 'f upload_run" where
  "upload_loop server files onProgress i batchId uploadedCount =
     (if i < length files then
        let chunk = take CHUNK_SIZE (drop i files);
            call = \<lparr>call_files = chunk,
                    call_batch_id = (if truthy batchId then Some batchId else None)\<rparr>;
            stop = (\<lambda>e. \<lparr>calls = [call], progress = [], result = Inl e\<rparr>)
        in
          case server (i div CHUNK_SIZE) of
            FetchRejected \<Rightarrow> stop NetworkError
          | Fetched r \<Rightarrow>
              if \<not> ok r then
                stop (Error (MsgText (''Failed to upload chunk '' @ show_nat (i div CHUNK_SIZE + 1))) None)
              else
                (case json r of
                   Inl e \<Rightarrow> stop e
                 | Inr res \<Rightarrow>
                     if \<not> truthy batchId \<and> nullish res then stop TypeError
                     else
                       let batchId' = (if \<not> truthy batchId then field ''batch_id'' res else batchId);
                           uploadedCount' = uploadedCount + length chunk;
                           rest = upload_loop server files onProgress (i + CHUNK_SIZE) batchId' uploadedCount'
                       in rest\<lparr>calls := call # calls rest,
                                progress := (if onProgress then [(uploadedCount', length files)] else [])
                                              @ progress rest\<rparr>)
      else
        \<lparr>calls = [], progress = [],
         result = Inr (JObj [(''batch_id'', batchId), (''file_count'', JNum (of_nat (length files)))])\<rparr>)"
  by pat_completeness auto
termination
  by (relation "measure (\<lambda>(server, files, onProgress, i, batchId, uploadedCount). length files - i)")
     (auto simp: CHUNK_SIZE_def)

declare upload_loop.simps [simp del]

definition uploadImagesChunked :: "(nat \<Rightarrow> fetch_result) \<Rightarrow> 'f list \<Rightarrow> bool \<Rightarrow> 'f upload_run" where
  "uploadImagesChunked server files onProgress =
     (if length files \<le> CHUNK_SIZE then uploadImages (server 0) files onProgress
      else upload_loop server files onProgress 0 JNull 0)"

text \<open>
  Ways of speaking about a run of the uploader.  \<open>succeeds\<close>: the request was answered
  with a status in 200..299 and a JSON body.  \<open>good\<close>: moreover the body is not
  \<^verbatim>\<open>null\<close>, so that \<^verbatim>\<open>result.batch_id\<close> can be read.  \<open>chunk_count n\<close> is the number of
  iterations of the loop for \<open>n\<close> files, and \<open>slice_call files b k\<close> the request that
  carries the \<open>k\<close>-th slice of the files with the \<^verbatim>\<open>batch_id\<close> field \<open>b\<close>.
\<close>

definition succeeds :: "fetch_result \<Rightarrow> bool" where
  "succeeds fr = (case fr of FetchRejected \<Rightarrow> False | Fetched r \<Rightarrow> ok r \<and> body r \<noteq> None)"


definition chunk_count :: "nat \<Rightarrow> nat" where
  "chunk_count n = (n + CHUNK_SIZE - 1) div CHUNK_SIZE"

definition slice_call :: "'f list \<Rightarrow> jsval option \<Rightarrow> nat \<Rightarrow> 'f upload_call" where
  "slice_call files b k =
     \<lparr>call_files = take CHUNK_SIZE (drop (k * CHUNK_SIZE) files), call_batch_id = b\<rparr>"



text \<open>
  Two servers for concrete runs: \<open>srv_ok\<close> answers every upload with 200 and the batch
  \<^verbatim>\<open>b1\<close>; \<open>srv_fail2\<close> answers the second upload with 500.
\<close>

definition srv_ok :: "nat \<Rightarrow> fetch_result" where
  "srv_ok k = Fetched \<lparr>status_code = 200, body = Some (JObj [(''batch_id'', JStr ''b1'')])\<rparr>"




section \<open>backend.js: pollJobStatus and getDefaultErrorMessage\<close>

text \<open>\<^verbatim>\<open>s.startsWith(p)\<close> and \<^verbatim>\<open>s.split(c)\<close> for a one-character separator.\<close>

definition startsWith :: "string \<Rightarrow> string \<Rightarrow> bool" where
  "startsWith s p = (take (length p) s = p)"

fun split :: "char \<Rightarrow> string \<Rightarrow> string list" where
  "split c [] = [[]]"
| "split c (x # xs) =
     (if x = c then [] # split c xs
      else (case split c xs of [] \<Rightarrow> [[x]] | seg # segs \<Rightarrow> (x # seg) # segs))"

text \<open>
  The object literal \<^verbatim>\<open>messages\<close>.  It is an ordinary object, so \<^verbatim>\<open>messages[k]\<close> finds
  its five own properties and, for any other \<open>k\<close>, the members it inherits from
  \<^verbatim>\<open>Object.prototype\<close>: functions, and for \<^verbatim>\<open>__proto__\<close> the prototype object itself, all
  of them truthy.
\<close>

definition messages :: "(string \<times> string) list" where
  "messages =
     [(''rate_limit'', ''API rate limit exceeded. Please wait a moment and try again.''),
      (''insufficient_credits'', ''API credits exhausted. Please add credits to your account or switch to a different AI provider in Settings.''),
      (''invalid_key'', ''API key is invalid or expired. Please check your API key in Settings.''),
      (''no_valid_data'', ''No text could be extracted from the images. Please try with clearer images.''),
      (''unknown'', ''An unexpected error occurred during extraction.'')]"

definition object_prototype_names :: "string list" where
  "object_prototype_names =
     [''constructor'', ''__defineGetter__'', ''__defineSetter__'', ''hasOwnProperty'',
      ''__lookupGetter__'', ''__lookupSetter__'', ''isPrototypeOf'', ''propertyIsEnumerable'',
      ''toString'', ''valueOf'', ''__proto__'', ''toLocaleString'']"

text \<open>
  \<^verbatim>\<open>messages[errorType] || messages["unknown"]\<close>, as the argument that \<^verbatim>\<open>new Error\<close> will
  convert to the message.
\<close>

definition getDefaultErrorMessage :: "string \<Rightarrow> msg" where
  "getDefaultErrorMessage errorType =
     (case map_of messages errorType of
        Some m \<Rightarrow> MsgText m
      | None \<Rightarrow>
          if errorType \<in> set object_prototype_names then MsgOfInherited errorType
          else (case map_of messages ''unknown'' of Some m \<Rightarrow> MsgText m | None \<Rightarrow> MsgOfValue JUndefined))"

text \<open>The message that \<^verbatim>\<open>new Error(v)\<close> gets from a parsed value \<open>v\<close>.\<close>

fun to_msg :: "jsval \<Rightarrow> msg" where
  "to_msg (JStr s) = MsgText s"
| "to_msg v = MsgOfValue v"

text \<open>\<^verbatim>\<open>status.status.split(":")[1] || "unknown"\<close>\<close>

definition errorType_of :: "string \<Rightarrow> string" where
  "errorType_of s =
     (case split CHR '':'' s of
        _ # kind # _ \<Rightarrow> if kind = [] then ''unknown'' else kind
      | _ \<Rightarrow> ''unknown'')"

text \<open>
  One run of the closure \<^verbatim>\<open>poll\<close>: it resolves the promise, rejects it, or calls
  \<^verbatim>\<open>setTimeout(poll, intervalMs)\<close>.  The callback is a function that may throw
  (\<open>Some e\<close>); whatever is thrown inside the \<^verbatim>\<open>try\<close> block rejects the promise.
  \<^verbatim>\<open>status.status?.startsWith("error")\<close> is \<^verbatim>\<open>undefined\<close> for a missing or null status,
  the test on a string, and a \<open>TypeError\<close> for any other value, which has no callable
  \<^verbatim>\<open>startsWith\<close>.
\<close>

datatype tick = Resolve jsval | Reject js_error | Reschedule

definition poll_tick :: "(jsval \<Rightarrow> js_error option) option \<Rightarrow> fetch_result \<Rightarrow> jsval list \<times> tick" where
  "poll_tick onProgress fr =
     (case getJobStatus fr of
        Inl e \<Rightarrow> ([], Reject e)
      | Inr status \<Rightarrow>
          (case onProgress of
             None \<Rightarrow> []
           | Some cb \<Rightarrow> [status],
           case (case onProgress of None \<Rightarrow> None | Some cb \<Rightarrow> cb status) of
             Some e \<Rightarrow> Reject e
           | None \<Rightarrow>
               if nullish status then Reject TypeError
               else if field ''status'' status = JStr ''completed'' then Resolve status
               else
                 (case field ''status'' status of
                    JStr s \<Rightarrow>
                      if startsWith s ''error'' then
                        let errorType = errorType_of s;
                            errorMessage =
                              (if truthy (field ''error_message'' status)
                               then to_msg (field ''error_message'' status)
                               else getDefaultErrorMessage errorType)
                        in Reject (Error errorMessage (Some errorType))
                      else if s = ''not_found'' then Reject (Error (MsgText ''Job not found'') None)
                      else Reschedule
                  | JUndefined \<Rightarrow> Reschedule
                  | JNull \<Rightarrow> Reschedule
                  | _ \<Rightarrow> Reject TypeError)))"

text \<open>
  \<open>pollJobStatus\<close> over the outcomes of the successive status requests that were
  observed.  \<open>Pending\<close>: the promise is still unsettled when the observation ends.  The
  run records the number of status requests issued, the arguments of the invocations of
  \<^verbatim>\<open>onProgress\<close> and the delays passed to \<^verbatim>\<open>setTimeout\<close>.
\<close>

datatype settled = Resolved jsval | Rejected js_error | Pending

record poll_run =
  polls :: nat
  seen :: "jsval list"
  timers :: "nat list"
  outcome :: settled

fun pollJobStatus :: "(jsval \<Rightarrow> js_error option) option \<Rightarrow> nat \<Rightarrow> fetch_result list \<Rightarrow> poll_run" where
  "pollJobStatus onProgress intervalMs [] = \<lparr>polls = 0, seen = [], timers = [], outcome = Pending\<rparr>"
| "pollJobStatus onProgress intervalMs (fr # frs) =
     (case poll_tick onProgress fr of
        (sn, Resolve v) \<Rightarrow> \<lparr>polls = 1, seen = sn, timers = [], outcome = Resolved v\<rparr>
      | (sn, Reject e) \<Rightarrow> \<lparr>polls = 1, seen = sn, timers = [], outcome = Rejected e\<rparr>
      | (sn, Reschedule) \<Rightarrow>
          (let rest = pollJobStatus onProgress intervalMs frs
           in \<lparr>polls = Suc (polls rest), seen = sn @ seen rest,
               timers = intervalMs # timers rest, outcome = outcome rest\<rparr>))"

text \<open>A status response with the given payload.\<close>

definition status_response :: "jsval \<Rightarrow> fetch_result" where
  "status_response p = Fetched \<lparr>status_code = 200, body = Some p\<rparr>"

section \<open>App: LIMITS and shouldUseAsync\<close>

record limits =
  syncMax :: nat
  recommended :: nat
  warning :: nat
  danger :: nat

definition LIMITS :: limits where
  "LIMITS = \<lparr>syncMax = 0, recommended = 500, warning = 2000, danger = 5000\<rparr>"

text \<open>
  \<^verbatim>\<open>processingMode\<close> is component state read by the closure; here it is the first
  argument.
\<close>

definition shouldUseAsync :: "string \<Rightarrow> nat \<Rightarrow> bool" where
  "shouldUseAsync processingMode imageCount =
     (if processingMode = ''sync'' then False
      else if processingMode = ''async'' then True
      else imageCount > syncMax LIMITS)"

section \<open>Notions used to state the properties of pollJobStatus\<close>




section \<open>backend.js: extractBatch and extractBatchAsync\<close>

definition extractBatch :: "fetch_result \<Rightarrow> js_error + jsval" where
  "extractBatch fr =
     (case fr of
        FetchRejected \<Rightarrow> Inl NetworkError
      | Fetched r \<Rightarrow>
          if \<not> ok r then Inl (Error (MsgText ''Failed to extract batch'') None) else json r)"

definition extractBatchAsync :: "fetch_result \<Rightarrow> js_error + jsval" where
  "extractBatchAsync fr =
     (case fr of
        FetchRejected \<Rightarrow> Inl NetworkError
      | Fetched r \<Rightarrow>
          if \<not> ok r then Inl (Error (MsgText ''Failed to queue extraction job'') None) else json r)"

section \<open>App: buildSchema\<close>

text \<open>
  \<^verbatim>\<open>String.prototype.trim\<close> removes white space and line terminators at both ends; among
  the code units below 256 these are tab, line feed, vertical tab, form feed, carriage
  return, space and the no-break space.
\<close>

definition is_space :: "char \<Rightarrow> bool" where
  "is_space c = (c \<in> set [CHR 0x09, CHR 0x0A, CHR 0x0B, CHR 0x0C, CHR 0x0D, CHR 0x20, CHR 0xA0])"

definition trim :: "string \<Rightarrow> string" where
  "trim s = rev (dropWhile is_space (rev (dropWhile is_space s)))"

text \<open>
  The object built by \<open>buildSchema\<close>: the names of its own properties in the order of
  their creation (every value is \<^verbatim>\<open>null\<close>; JavaScript enumerates integer-like names
  first, which no property below depends on), and whether its prototype is still
  \<^verbatim>\<open>Object.prototype\<close>.  \<^verbatim>\<open>JSON.stringify\<close> sends the own properties only.

  \<^verbatim>\<open>schema[k] = null\<close> creates the own property \<open>k\<close> or overwrites it, except for the name
  \<^verbatim>\<open>__proto__\<close> while the prototype is \<^verbatim>\<open>Object.prototype\<close>: that name is an accessor
  inherited from the prototype, and the assignment calls its setter, which sets the
  prototype of the object to \<^verbatim>\<open>null\<close> and creates no property.
\<close>

record schema =
  own :: "string list"
  has_prototype :: bool

definition assign_null :: "schema \<Rightarrow> string \<Rightarrow> schema" where
  "assign_null sch k =
     (if k = ''__proto__'' \<and> has_prototype sch then sch\<lparr>has_prototype := False\<rparr>
      else if k \<in> set (own sch) then sch
      else sch\<lparr>own := own sch @ [k]\<rparr>)"

definition buildSchema :: "string list \<Rightarrow> schema" where
  "buildSchema flds =
     fold (\<lambda>f sch. if trim f \<noteq> [] then assign_null sch (trim f) else sch) flds
       \<lparr>own = [], has_prototype = True\<rparr>"

section \<open>App: handleExtract and handleTerminate\<close>

text \<open>
  The network operations of one extraction: an upload request, the synchronous or the
  asynchronous extraction request with the JSON body \<^verbatim>\<open>{batch_id, schema,
  custom_filename}\<close>, and a status request for a job.
\<close>

datatype 'f netop =
    Upload "'f upload_call"
  | ExtractSync jsval schema string
  | ExtractAsync jsval schema string
  | StatusPoll jsval

text \<open>
  The component state that \<open>handleExtract\<close> reads (\<open>app_files\<close> is the state \<^verbatim>\<open>files\<close>, and so
  on); \<open>app_defaultFilename\<close> is what
  \<^verbatim>\<open>generateDefaultFilename()\<close> returns at that moment, and no output folder is selected.
  The backend answers the upload requests, the extraction request and the successive
  status requests.
\<close>

record 'f app =
  app_files :: "'f list"
  app_schemaFields :: "string list"
  app_processingMode :: string
  app_customFilename :: string
  app_defaultFilename :: string

record backend =
  upload_responses :: "nat \<Rightarrow> fetch_result"
  extract_response :: fetch_result
  status_responses :: "fetch_result list"

text \<open>What \<^verbatim>\<open>setError\<close> was last called with in the run.\<close>

datatype shown = NoError | Message string | Caught js_error

text \<open>
  The callback passed to \<open>pollJobStatus\<close> reads \<^verbatim>\<open>progressData.percentage\<close>, which throws
  for \<^verbatim>\<open>null\<close>.
\<close>

definition extraction_callback :: "jsval \<Rightarrow> js_error option" where
  "extraction_callback progressData = (if nullish progressData then Some TypeError else None)"

text \<open>
  The network operations of \<open>handleExtract\<close>, in order, and the error it shows.  The
  function creates an \<^verbatim>\<open>AbortController\<close> and stores it in the state; its signal is
  passed to no \<^verbatim>\<open>fetch\<close>, to none of the functions of backend.js, and is read nowhere.
\<close>

definition handleExtract_ops :: "'f app \<Rightarrow> backend \<Rightarrow> 'f netop list \<times> shown" where
  "handleExtract_ops a srv =
     (if length (app_files a) = 0 then ([], Message ''Please upload at least one image'')
      else if length (filter (\<lambda>f. trim f \<noteq> []) (app_schemaFields a)) = 0
        then ([], Message ''Please define at least one field to extract'')
      else
        let useAsync = shouldUseAsync (app_processingMode a) (length (app_files a));
            up = uploadImagesChunked (upload_responses srv) (app_files a) True;
            uploads = map Upload (calls up)
        in
          case result up of
            Inl e \<Rightarrow> (uploads, Caught e)
          | Inr uploadRes \<Rightarrow>
              let schema = buildSchema (app_schemaFields a);
                  filename = (if trim (app_customFilename a) \<noteq> [] then trim (app_customFilename a)
                              else app_defaultFilename a)
              in
                if nullish uploadRes then (uploads, Caught TypeError)
                else if useAsync then
                  (let request = ExtractAsync (field ''batch_id'' uploadRes) schema filename in
                   case extractBatchAsync (extract_response srv) of
                     Inl e \<Rightarrow> (uploads @ [request], Caught e)
                   | Inr jobRes \<Rightarrow>
                       if nullish jobRes then (uploads @ [request], Caught TypeError)
                       else
                         let run = pollJobStatus (Some extraction_callback) 2000 (status_responses srv);
                             ticks = replicate (polls run) (StatusPoll (field ''job_id'' jobRes))
                         in (uploads @ [request] @ ticks,
                             case outcome run of
                               Rejected e \<Rightarrow> Caught e
                             | _ \<Rightarrow> NoError))
                else
                  (let request = ExtractSync (field ''batch_id'' uploadRes) schema filename in
                   case extractBatch (extract_response srv) of
                     Inl e \<Rightarrow> (uploads @ [request], Caught e)
                   | Inr extractRes \<Rightarrow>
                       if nullish extractRes then (uploads @ [request], Caught TypeError)
                       else (uploads @ [request], NoError)))"

text \<open>
  \<open>handleTerminate\<close> calls \<^verbatim>\<open>abortController.abort()\<close>.  The user presses the button
  while operation number \<open>k\<close> (from 0) of the run is in flight, or never (\<open>None\<close>); from
  then on \<^verbatim>\<open>signal.aborted\<close> is true.
\<close>

definition signal_aborted :: "nat option \<Rightarrow> nat \<Rightarrow> bool" where
  "signal_aborted terminate_during i = (case terminate_during of None \<Rightarrow> False | Some k \<Rightarrow> k < i)"

text \<open>
  A run of \<open>handleExtract\<close> with \<open>handleTerminate\<close> in between: every network operation
  issued, with the value of \<^verbatim>\<open>signal.aborted\<close> at the moment it was issued.
\<close>

record 'f extract_run =
  issued :: "('f netop \<times> bool) list"
  error_shown :: shown

definition handleExtract :: "'f app \<Rightarrow> backend \<Rightarrow> nat option \<Rightarrow> 'f extract_run" where
  "handleExtract a srv terminate_during =
     (let (ops, err) = handleExtract_ops a srv
      in \<lparr>issued = zip ops (map (signal_aborted terminate_during) [0..<length ops]),
          error_shown = err\<rparr>)"

text \<open>Concrete inputs: a backend that accepts everything and completes the job at the second poll.\<close>

definition backend_ok :: backend where
  "backend_ok =
     \<lparr>upload_responses = srv_ok,
      extract_response = Fetched \<lparr>status_code = 200, body = Some (JObj [(''job_id'', JStr ''j1'')])\<rparr>,
      status_responses =
        [status_response (JObj [(''status'', JStr ''processing''), (''percentage'', JNum 50)]),
         status_response (JObj [(''status'', JStr ''completed''), (''percentage'', JNum 100)])]\<rparr>"

definition app_250 :: "unit app" where
  "app_250 =
     \<lparr>app_files = replicate 250 (), app_schemaFields = [''name'', '' age ''], app_processingMode = ''auto'',
      app_customFilename = '''', app_defaultFilename = ''survey''\<rparr>"

definition app_proto :: "unit app" where
  "app_proto =
     \<lparr>app_files = [()], app_schemaFields = [''__proto__''], app_processingMode = ''auto'',
      app_customFilename = '''', app_defaultFilename = ''survey''\<rparr>"

section \<open>Double-precision arithmetic and the progress percentages\<close>

text \<open>
  Round to the nearest integer, ties to the even one.
\<close>

definition rne :: "rat \<Rightarrow> int" where
  "rne x =
     (let f = \<lfloor>x\<rfloor>; d = x - of_int f
      in if d < 1 / 2 then f else if 1 / 2 < d then f + 1 else if even f then f else f + 1)"

text \<open>
  The binary exponent of a positive rational: \<open>2 powi expo x \<le> x < 2 powi (expo x + 1)\<close>
  (\<open>expo_bounds\<close>), computed from the bit lengths of numerator and denominator.
\<close>

definition expo :: "rat \<Rightarrow> int" where
  "expo x =
     (let (a, b) = quotient_of x; d = bitlen a - bitlen b
      in if of_int a < of_int b * (2::rat) powi d then d - 1 else d)"

text \<open>
  \<open>fl x\<close> is the double nearest to \<open>x\<close>, ties to even: 53 significant bits, and the
  spacing \<open>2 powi (- 1074)\<close> of the subnormal numbers below \<open>2 powi (- 1022)\<close>.  Overflow
  to infinity is not represented; the quantities below stay under \<open>2 ^ 60\<close>.
\<close>

definition fl :: "rat \<Rightarrow> rat" where
  "fl x =
     (if x = 0 then 0
      else let e = max (expo \<bar>x\<bar> - 52) (- 1074)
           in sgn x * of_int (rne (\<bar>x\<bar> / 2 powi e)) * 2 powi e)"

text \<open>\<^verbatim>\<open>Math.round\<close>: the nearest integer, ties towards \<open>+\<infinity>\<close>.\<close>

definition Math_round :: "rat \<Rightarrow> int" where
  "Math_round x = \<lfloor>x + 1 / 2\<rfloor>"

text \<open>
  The two progress computations of \<open>handleExtract\<close>.  In the upload callback,
  \<^verbatim>\<open>Math.round((uploaded / total) * 30)\<close> for the counts \<^verbatim>\<open>uploaded\<close> and \<^verbatim>\<open>total\<close>, which are
  integers below \<open>2 ^ 53\<close> and so exact doubles; \<^verbatim>\<open>total\<close> is the number of files and is
  positive whenever the callback runs.  In the polling callback,
  \<^verbatim>\<open>30 + Math.round((progressData.percentage / 100) * 70)\<close> for a percentage that is a
  number; \<^verbatim>\<open>Math.round\<close> yields an integer-valued double, and the sum is rounded like
  every other operation.
\<close>

definition upload_pct :: "nat \<Rightarrow> nat \<Rightarrow> int" where
  "upload_pct uploaded total_files = Math_round (fl (fl (of_nat uploaded / of_nat total_files) * 30))"

definition extract_pct :: "rat \<Rightarrow> rat" where
  "extract_pct percentage = fl (30 + of_int (Math_round (fl (fl (percentage / 100) * 70))))"

section \<open>App: the progress state\<close>

text \<open>
  The state \<^verbatim>\<open>progress\<close> of the component, as far as the properties \<^verbatim>\<open>percentage\<close>,
  \<^verbatim>\<open>stage\<close> and \<^verbatim>\<open>backendStage\<close> of the object passed to \<^verbatim>\<open>setProgress\<close> go.  The
  percentage is a number computed by the component (\<open>Pct\<close>), a value copied from the
  status payload as it is (\<open>Copied\<close>), or the result of the arithmetic of the polling
  callback on a payload value that is not a number, which is kept symbolic
  (\<open>Converted\<close>).
\<close>

datatype pct_value = Pct rat | Copied jsval | Converted jsval

record ui_progress =
  pg_percentage :: pct_value
  pg_stage :: jsval
  pg_backendStage :: jsval

text \<open>
  The calls of \<^verbatim>\<open>setProgress\<close> made by the upload callback, by \<open>handleProgressUpdate\<close> and
  by the polling callback, in order; the last one of a callback is the state held when
  it returns.  \<open>handleProgressUpdate\<close> sets \<^verbatim>\<open>{...progressData, backendStage:
  progressData.stage}\<close>.  The polling callback sets \<^verbatim>\<open>{...progressData, percentage:
  extractPct, stage: 'extraction', backendStage: progressData.stage}\<close> and then calls
  \<open>handleProgressUpdate\<close> with the same payload; for \<^verbatim>\<open>null\<close> it throws before any call.
\<close>

definition upload_callback :: "nat \<Rightarrow> nat \<Rightarrow> ui_progress list" where
  "upload_callback uploaded total_files =
     [\<lparr>pg_percentage = Pct (of_int (upload_pct uploaded total_files)),
       pg_stage = JStr ''upload'', pg_backendStage = JUndefined\<rparr>]"

definition handleProgressUpdate :: "jsval \<Rightarrow> ui_progress list" where
  "handleProgressUpdate progressData =
     [\<lparr>pg_percentage = Copied (field ''percentage'' progressData),
       pg_stage = field ''stage'' progressData,
       pg_backendStage = field ''stage'' progressData\<rparr>]"

definition polling_callback :: "jsval \<Rightarrow> ui_progress list" where
  "polling_callback progressData =
     (if nullish progressData then []
      else
        \<lparr>pg_percentage =
           (case field ''percentage'' progressData of
              JNum p \<Rightarrow> Pct (extract_pct p)
            | v \<Rightarrow> Converted v),
         pg_stage = JStr ''extraction'',
         pg_backendStage = field ''stage'' progressData\<rparr>
        # handleProgressUpdate progressData)"

text \<open>
  The state that \<open>handleExtract\<close> sets after the extraction job was queued and before the
  first poll, and the state held after a callback made the given calls.
\<close>

definition starting_extraction :: ui_progress where
  "starting_extraction =
     \<lparr>pg_percentage = Pct 30, pg_stage = JStr ''extraction'',
      pg_backendStage = JStr ''Starting extraction...''\<rparr>"

definition held_after :: "ui_progress \<Rightarrow> ui_progress list \<Rightarrow> ui_progress" where
  "held_after st writes = (if writes = [] then st else last writes)"

text \<open>A status payload of a job that has processed 10 of 100 images.\<close>

definition payload_10 :: jsval where
  "payload_10 =
     JObj [(''status'', JStr ''processing''), (''processed'', JNum 10), (''total'', JNum 100),
           (''percentage'', JNum 10), (''stage'', JStr ''OCR'')]"

section \<open>Properties of getJobStatus\<close>




section \<open>Properties of shouldUseAsync\<close>

text \<open>
  C7.  The result of \<open>shouldUseAsync\<close> depends on the image count and the processing
  mode only: mode \<^verbatim>\<open>sync\<close> gives false, mode \<^verbatim>\<open>async\<close> gives true, and mode \<^verbatim>\<open>auto\<close>
  gives false exactly when the count is at most the synchronous ceiling, which is 0, so
  that every positive count is processed asynchronously.
\<close>

theorem shouldUseAsync_modes:
  "shouldUseAsync ''sync'' n = False \<and>
   shouldUseAsync ''async'' n = True \<and>
   shouldUseAsync ''auto'' n = (\<not> n \<le> syncMax LIMITS) \<and>
   syncMax LIMITS = 0 \<and>
   shouldUseAsync ''auto'' n = (0 < n)"
  by (auto simp add: shouldUseAsync_def LIMITS_def)


section \<open>Properties of the chunked upload\<close>

lemma chunk_count_le: "chunk_count n \<le> j \<longleftrightarrow> n \<le> j * CHUNK_SIZE"
  by (auto simp: chunk_count_def CHUNK_SIZE_def)


lemma upload_loop_step:
  assumes "i < length files" "server (i div CHUNK_SIZE) = Fetched r" "ok r" "body r = Some res"
      and "truthy b \<or> \<not> nullish res"
  shows "upload_loop server files onP i b u =
           (let rest = upload_loop server files onP (i + CHUNK_SIZE)
                         (if \<not> truthy b then field ''batch_id'' res else b)
                         (u + length (take CHUNK_SIZE (drop i files)))
            in \<lparr>calls = \<lparr>call_files = take CHUNK_SIZE (drop i files),
                          call_batch_id = (if truthy b then Some b else None)\<rparr> # calls rest,
                progress = (if onP then [(u + length (take CHUNK_SIZE (drop i files)), length files)] else [])
                             @ progress rest,
                result = result rest\<rparr>)"
  using assms by (subst upload_loop.simps) (auto simp: json_def Let_def)


lemma upload_loop_end:
  "length files \<le> i \<Longrightarrow> upload_loop server files onP i b u =
     \<lparr>calls = [], progress = [],
      result = Inr (JObj [(''batch_id'', b), (''file_count'', JNum (of_nat (length files)))])\<rparr>"
  by (subst upload_loop.simps) simp

lemma upload_loop_rest:
  assumes "truthy b"
      and "\<forall>k. j \<le> k \<and> k * CHUNK_SIZE < length files \<longrightarrow> succeeds (server k)"
  shows "upload_loop server files onP (j * CHUNK_SIZE) b (min (length files) (j * CHUNK_SIZE)) =
           \<lparr>calls = map (slice_call files (Some b)) [j..<chunk_count (length files)],
            progress = (if onP then map (\<lambda>k. (min (length files) ((k + 1) * CHUNK_SIZE), length files))
                                       [j..<chunk_count (length files)] else []),
            result = Inr (JObj [(''batch_id'', b), (''file_count'', JNum (of_nat (length files)))])\<rparr>"
  using assms
proof (induction "chunk_count (length files) - j" arbitrary: j)
  case 0
  then have "length files \<le> j * CHUNK_SIZE" by (simp add: chunk_count_le)
  then show ?case using 0 by (simp add: upload_loop_end)
next
  case (Suc d)
  then have lt: "j < chunk_count (length files)" by simp
  then have i: "j * CHUNK_SIZE < length files" using chunk_count_le [of "length files" j] by simp
  from Suc.prems(2) i have "succeeds (server j)" by blast
  then obtain r res where r: "server j = Fetched r" "ok r" "body r = Some res"
    by (cases "server j") (auto simp: succeeds_def)
  have d: "d = chunk_count (length files) - Suc j" using Suc.hyps(2) by simp
  have u: "min (length files) (j * CHUNK_SIZE) + length (take CHUNK_SIZE (drop (j * CHUNK_SIZE) files))
           = min (length files) (Suc j * CHUNK_SIZE)"
    using i by (auto simp add: min_def)
  have div: "j * CHUNK_SIZE div CHUNK_SIZE = j" by (simp add: CHUNK_SIZE_def)
  have nxt: "j * CHUNK_SIZE + CHUNK_SIZE = Suc j * CHUNK_SIZE" by simp
  have IH: "upload_loop server files onP (Suc j * CHUNK_SIZE) b (min (length files) (Suc j * CHUNK_SIZE)) =
           \<lparr>calls = map (slice_call files (Some b)) [Suc j..<chunk_count (length files)],
            progress = (if onP then map (\<lambda>k. (min (length files) ((k + 1) * CHUNK_SIZE), length files))
                                       [Suc j..<chunk_count (length files)] else []),
            result = Inr (JObj [(''batch_id'', b), (''file_count'', JNum (of_nat (length files)))])\<rparr>"
    using Suc.hyps(1) [OF d Suc.prems(1)] Suc.prems(2) by simp
  have step: "upload_loop server files onP (j * CHUNK_SIZE) b (min (length files) (j * CHUNK_SIZE)) =
           (let rest = upload_loop server files onP (Suc j * CHUNK_SIZE) b (min (length files) (Suc j * CHUNK_SIZE))
            in \<lparr>calls = slice_call files (Some b) j # calls rest,
                progress = (if onP then [(min (length files) (Suc j * CHUNK_SIZE), length files)] else [])
                             @ progress rest,
                result = result rest\<rparr>)"
    using upload_loop_step [of "j * CHUNK_SIZE" files server r res b onP "min (length files) (j * CHUNK_SIZE)"]
          i r Suc.prems(1)
    by (simp only: div nxt u slice_call_def if_True if_False simp_thms)
  show ?case
    unfolding step IH Let_def by (simp add: upt_conv_Cons [OF lt])
qed

lemma upload_loop_first:
  assumes "0 < length files" "server 0 = Fetched r0" "ok r0" "body r0 = Some res0"
      and "truthy (field ''batch_id'' res0)"
      and "\<forall>k. 0 < k \<and> k * CHUNK_SIZE < length files \<longrightarrow> succeeds (server k)"
  shows "upload_loop server files onP 0 JNull 0 =
           \<lparr>calls = slice_call files None 0 #
                     map (slice_call files (Some (field ''batch_id'' res0))) [1..<chunk_count (length files)],
            progress = (if onP then map (\<lambda>k. (min (length files) ((k + 1) * CHUNK_SIZE), length files))
                                       [0..<chunk_count (length files)] else []),
            result = Inr (JObj [(''batch_id'', field ''batch_id'' res0),
                                (''file_count'', JNum (of_nat (length files)))])\<rparr>"
proof -
  have nn: "\<not> nullish res0" using assms(5) by (cases res0) auto
  have lt: "0 < chunk_count (length files)"
    using assms(1) chunk_count_le [of "length files" 0] by simp
  have rest: "upload_loop server files onP (1 * CHUNK_SIZE) (field ''batch_id'' res0)
                (min (length files) (1 * CHUNK_SIZE)) =
           \<lparr>calls = map (slice_call files (Some (field ''batch_id'' res0))) [1..<chunk_count (length files)],
            progress = (if onP then map (\<lambda>k. (min (length files) ((k + 1) * CHUNK_SIZE), length files))
                                       [1..<chunk_count (length files)] else []),
            result = Inr (JObj [(''batch_id'', field ''batch_id'' res0),
                                (''file_count'', JNum (of_nat (length files)))])\<rparr>"
    by (rule upload_loop_rest) (use assms in auto)
  have len: "length (take CHUNK_SIZE (drop 0 files)) = min (length files) (1 * CHUNK_SIZE)"
    by (simp add: min.commute)
  have step: "upload_loop server files onP 0 JNull 0 =
           (let rest = upload_loop server files onP (1 * CHUNK_SIZE) (field ''batch_id'' res0)
                         (min (length files) (1 * CHUNK_SIZE))
            in \<lparr>calls = slice_call files None 0 # calls rest,
                progress = (if onP then [(min (length files) (1 * CHUNK_SIZE), length files)] else [])
                             @ progress rest,
                result = result rest\<rparr>)"
    using upload_loop_step [of 0 files server r0 res0 JNull onP 0] assms(1-4) nn
    unfolding len by (simp add: slice_call_def)
  show ?thesis
    unfolding step rest Let_def using lt by (simp add: upt_conv_Cons)
qed





lemma uploadImagesChunked_small:
  "length files \<le> CHUNK_SIZE \<Longrightarrow>
     uploadImagesChunked server files onP = uploadImages (server 0) files onP"
  by (simp add: uploadImagesChunked_def)

lemma uploadImagesChunked_large:
  assumes "CHUNK_SIZE < length files" "server 0 = Fetched r0" "ok r0" "body r0 = Some res0"
      and "truthy (field ''batch_id'' res0)"
      and "\<forall>k. 0 < k \<and> k * CHUNK_SIZE < length files \<longrightarrow> succeeds (server k)"
  shows "uploadImagesChunked server files onP =
           \<lparr>calls = map (\<lambda>k. slice_call files (if k = 0 then None else Some (field ''batch_id'' res0)) k)
                         [0..<chunk_count (length files)],
            progress = (if onP then map (\<lambda>k. (min (length files) ((k + 1) * CHUNK_SIZE), length files))
                                       [0..<chunk_count (length files)] else []),
            result = Inr (JObj [(''batch_id'', field ''batch_id'' res0),
                                (''file_count'', JNum (of_nat (length files)))])\<rparr>"
proof -
  have pos: "0 < length files" using assms(1) by (cases files) simp_all
  have lt: "0 < chunk_count (length files)"
    using pos chunk_count_le [of "length files" 0] by simp
  have m: "map (\<lambda>k. slice_call files (if k = 0 then None else Some (field ''batch_id'' res0)) k)
             [0..<chunk_count (length files)]
           = slice_call files None 0 #
             map (slice_call files (Some (field ''batch_id'' res0))) [1..<chunk_count (length files)]"
    using lt by (simp add: upt_conv_Cons)
  show ?thesis
    using assms(1) upload_loop_first [OF pos assms(2-6), of onP]
    unfolding m by (simp add: uploadImagesChunked_def)
qed








lemma chunk_count_250: "chunk_count 250 = 3" by (simp add: chunk_count_def CHUNK_SIZE_def)


lemma uploadImagesChunked_large_progress:
  assumes "CHUNK_SIZE < length files" "server 0 = Fetched r0" "ok r0" "body r0 = Some res0"
      and "truthy (field ''batch_id'' res0)"
      and "\<forall>k. 0 < k \<and> k * CHUNK_SIZE < length files \<longrightarrow> succeeds (server k)"
  shows "progress (uploadImagesChunked server files True)
           = map (\<lambda>k. (min (length files) ((k + 1) * CHUNK_SIZE), length files))
                 [0..<chunk_count (length files)]"
    and "last (progress (uploadImagesChunked server files True)) = (length files, length files)"
proof -
  show p: "progress (uploadImagesChunked server files True)
           = map (\<lambda>k. (min (length files) ((k + 1) * CHUNK_SIZE), length files))
                 [0..<chunk_count (length files)]"
    using uploadImagesChunked_large [OF assms, of True] by simp
  have lt: "0 < chunk_count (length files)"
    using assms(1) chunk_count_le [of "length files" 0] by (cases files) simp_all
  then obtain m where m: "chunk_count (length files) = Suc m"
    by (cases "chunk_count (length files)") simp_all
  have "length files \<le> Suc m * CHUNK_SIZE"
    using chunk_count_le [of "length files" "Suc m"] m by simp
  then show "last (progress (uploadImagesChunked server files True)) = (length files, length files)"
    unfolding p m by (simp add: min_def)
qed

lemma uploadImagesChunked_small_progress:
  "length files \<le> CHUNK_SIZE \<Longrightarrow> progress (uploadImagesChunked server files onP) = []"
  by (simp add: uploadImagesChunked_small uploadImages_def)

text \<open>
  C5.  The single-call path never reports progress.  One file is uploaded with a
  callback, the server answers 200: one request is issued, its body is returned, and
  \<^verbatim>\<open>onProgress\<close> is not invoked at all; in particular no invocation reports \<open>(1, 1)\<close>.
  \<open>uploadImages\<close> takes the callback as a parameter and never calls it, whereas the loop
  for more than 100 files reports after each chunk and ends with \<open>(n, n)\<close>
  (\<open>uploadImagesChunked_large_progress\<close>).
\<close>

theorem uploadImagesChunked_single_call_no_progress:
  "progress (uploadImagesChunked srv_ok [()] True) = [] \<and>
   calls (uploadImagesChunked srv_ok [()] True) = [\<lparr>call_files = [()], call_batch_id = None\<rparr>] \<and>
   result (uploadImagesChunked srv_ok [()] True)
     = Inr (JObj [(''batch_id'', JStr ''b1'')])"
  by (simp add: uploadImagesChunked_def uploadImages_def CHUNK_SIZE_def srv_ok_def ok_def json_def)

lemma digit_inj:
  assumes "a < 10" "b < 10" "''0123456789'' ! a = ''0123456789'' ! b"
  shows "a = b"
proof -
  have "distinct ''0123456789''" by simp
  moreover have "a < length ''0123456789''" "b < length ''0123456789''" using assms by simp_all
  ultimately show ?thesis using assms(3) nth_eq_iff_index_eq by blast
qed

lemma show_nat_nonempty: "show_nat n \<noteq> []"
  by (subst show_nat.simps) simp

lemma show_nat_inj: "show_nat n = show_nat m \<Longrightarrow> n = m"
proof (induction n arbitrary: m rule: show_nat.induct)
  case (1 n)
  show ?case
  proof (cases "n < 10")
    case True
    then have n: "show_nat n = [''0123456789'' ! n]" by (subst show_nat.simps) simp
    have "m < 10"
    proof (rule ccontr)
      assume "\<not> m < 10"
      then have "show_nat m = show_nat (m div 10) @ [''0123456789'' ! (m mod 10)]"
        by (subst show_nat.simps) simp
      then show False using "1.prems" n show_nat_nonempty [of "m div 10"] by simp
    qed
    then have "show_nat m = [''0123456789'' ! m]" by (subst show_nat.simps) simp
    then show ?thesis using "1.prems" n digit_inj [OF True \<open>m < 10\<close>] by simp
  next
    case False
    then have n: "show_nat n = show_nat (n div 10) @ [''0123456789'' ! (n mod 10)]"
      by (subst show_nat.simps) simp
    have m10: "\<not> m < 10"
    proof
      assume "m < 10"
      then have "show_nat m = [''0123456789'' ! m]" by (subst show_nat.simps) simp
      then show False using "1.prems" n show_nat_nonempty [of "n div 10"] by simp
    qed
    then have m: "show_nat m = show_nat (m div 10) @ [''0123456789'' ! (m mod 10)]"
      by (subst show_nat.simps) simp
    from "1.prems" n m have a: "show_nat (n div 10) = show_nat (m div 10)"
      and b: "''0123456789'' ! (n mod 10) = ''0123456789'' ! (m mod 10)" by simp_all
    have "n div 10 = m div 10" using "1.IH" [OF False a] .
    moreover have "n mod 10 = m mod 10" using digit_inj [OF _ _ b] by simp
    ultimately show ?thesis by (metis div_mult_mod_eq)
  qed
qed

lemma uploadImagesChunked_small_failure:
  assumes "length files \<le> CHUNK_SIZE" "server 0 = Fetched r" "\<not> ok r"
  shows "uploadImagesChunked server files onP =
           \<lparr>calls = [\<lparr>call_files = files, call_batch_id = None\<rparr>], progress = [],
            result = Inl (Error (MsgText ''Failed to upload images'') None)\<rparr>"
  using assms by (simp add: uploadImagesChunked_def uploadImages_def)



section \<open>Properties of pollJobStatus\<close>














lemma getDefaultErrorMessage_table:
  "getDefaultErrorMessage ''rate_limit'' = MsgText ''API rate limit exceeded. Please wait a moment and try again.''"
  "getDefaultErrorMessage ''insufficient_credits'' = MsgText ''API credits exhausted. Please add credits to your account or switch to a different AI provider in Settings.''"
  "getDefaultErrorMessage ''invalid_key'' = MsgText ''API key is invalid or expired. Please check your API key in Settings.''"
  "getDefaultErrorMessage ''no_valid_data'' = MsgText ''No text could be extracted from the images. Please try with clearer images.''"
  "getDefaultErrorMessage ''unknown'' = MsgText ''An unexpected error occurred during extraction.''"
  by (simp_all add: getDefaultErrorMessage_def messages_def)


lemma getDefaultErrorMessage_inherited:
  assumes "kind \<in> set object_prototype_names"
  shows "getDefaultErrorMessage kind = MsgOfInherited kind"
proof -
  have "map_of messages kind = None"
    using assms by (auto simp: messages_def object_prototype_names_def)
  then show ?thesis using assms by (simp add: getDefaultErrorMessage_def)
qed





text \<open>
  C10.  The kind \<^verbatim>\<open>constructor\<close> is not one of the five rows of the table, yet the status
  \<^verbatim>\<open>error:constructor\<close> without \<^verbatim>\<open>error_message\<close> does not get the \<^verbatim>\<open>unknown\<close> message:
  \<^verbatim>\<open>messages["constructor"]\<close> is the function inherited from \<^verbatim>\<open>Object.prototype\<close>, it is
  truthy, and the message of the error is its string conversion.  The other two parts
  hold: a status without colon gives \<^verbatim>\<open>unknown\<close> (\<open>errorType_of_no_colon\<close>), and with
  several colons the segment between the first two is taken (\<open>errorType_of_segments\<close>).
\<close>

theorem pollJobStatus_inherited_kind:
  "outcome (pollJobStatus None 2000 [status_response (JObj [(''status'', JStr ''error:constructor'')])])
     = Rejected (Error (MsgOfInherited ''constructor'') (Some ''constructor'')) \<and>
   map_of messages ''constructor'' = None \<and>
   getDefaultErrorMessage ''unknown'' = MsgText ''An unexpected error occurred during extraction.'' \<and>
   getDefaultErrorMessage ''constructor'' \<noteq> getDefaultErrorMessage ''unknown''"
  by (simp add: status_response_def poll_tick_def getJobStatus_def ok_def json_def startsWith_def
        errorType_of_def getDefaultErrorMessage_def messages_def object_prototype_names_def Let_def)

section \<open>Properties of handleExtract\<close>

lemma srv_ok_succeeds: "succeeds (srv_ok k)"
  by (simp add: srv_ok_def succeeds_def ok_def)

lemma upload_250:
  "uploadImagesChunked srv_ok (replicate 250 ()) True =
     \<lparr>calls = [\<lparr>call_files = replicate 100 (), call_batch_id = None\<rparr>,
               \<lparr>call_files = replicate 100 (), call_batch_id = Some (JStr ''b1'')\<rparr>,
               \<lparr>call_files = replicate 50 (), call_batch_id = Some (JStr ''b1'')\<rparr>],
      progress = [(100, 250), (200, 250), (250, 250)],
      result = Inr (JObj [(''batch_id'', JStr ''b1''), (''file_count'', JNum 250)])\<rparr>"
  using uploadImagesChunked_large
          [where files = "replicate 250 ()" and server = srv_ok and onP = True
             and ?r0.0 = "\<lparr>status_code = 200, body = Some (JObj [(''batch_id'', JStr ''b1'')])\<rparr>"
             and ?res0.0 = "JObj [(''batch_id'', JStr ''b1'')]"]
        srv_ok_succeeds
  by (simp add: chunk_count_250 slice_call_def CHUNK_SIZE_def upt_rec_numeral numeral_3_eq_3)
     (simp add: srv_ok_def ok_def)

lemma poll_backend_ok:
  "pollJobStatus (Some extraction_callback) 2000 (status_responses backend_ok) =
     \<lparr>polls = 2,
      seen = [JObj [(''status'', JStr ''processing''), (''percentage'', JNum 50)],
              JObj [(''status'', JStr ''completed''), (''percentage'', JNum 100)]],
      timers = [2000],
      outcome = Resolved (JObj [(''status'', JStr ''completed''), (''percentage'', JNum 100)])\<rparr>"
  by (simp add: backend_ok_def status_response_def poll_tick_def getJobStatus_def ok_def json_def
        extraction_callback_def startsWith_def)

lemma buildSchema_name_age:
  "buildSchema [''name'', '' age ''] = \<lparr>own = [''name'', ''age''], has_prototype = True\<rparr>"
  by (simp add: buildSchema_def trim_def is_space_def assign_null_def)

text \<open>
  C4.  The abort signal stops nothing.  250 files, mode \<^verbatim>\<open>auto\<close>, a backend that accepts
  everything; the user presses Terminate while the first chunk is being uploaded.  The
  run goes on as if nothing had happened: the second and the third chunk, the
  asynchronous extraction request and two status requests are all issued with
  \<^verbatim>\<open>signal.aborted\<close> true, and no error is shown.  For every input the operations issued
  are the same whenever the button is pressed (\<open>handleExtract_ops_independent\<close>).
\<close>

theorem handleExtract_ignores_abort:
  "issued (handleExtract app_250 backend_ok (Some 0)) =
     [(Upload \<lparr>call_files = replicate 100 (), call_batch_id = None\<rparr>, False),
      (Upload \<lparr>call_files = replicate 100 (), call_batch_id = Some (JStr ''b1'')\<rparr>, True),
      (Upload \<lparr>call_files = replicate 50 (), call_batch_id = Some (JStr ''b1'')\<rparr>, True),
      (ExtractAsync (JStr ''b1'') \<lparr>own = [''name'', ''age''], has_prototype = True\<rparr> ''survey'', True),
      (StatusPoll (JStr ''j1''), True),
      (StatusPoll (JStr ''j1''), True)] \<and>
   error_shown (handleExtract app_250 backend_ok (Some 0)) = NoError"
proof -
  have up: "uploadImagesChunked (upload_responses backend_ok) (app_files app_250) True =
     \<lparr>calls = [\<lparr>call_files = replicate 100 (), call_batch_id = None\<rparr>,
               \<lparr>call_files = replicate 100 (), call_batch_id = Some (JStr ''b1'')\<rparr>,
               \<lparr>call_files = replicate 50 (), call_batch_id = Some (JStr ''b1'')\<rparr>],
      progress = [(100, 250), (200, 250), (250, 250)],
      result = Inr (JObj [(''batch_id'', JStr ''b1''), (''file_count'', JNum 250)])\<rparr>"
    using upload_250 by (simp add: backend_ok_def app_250_def)
  have sch: "buildSchema (app_schemaFields app_250) = \<lparr>own = [''name'', ''age''], has_prototype = True\<rparr>"
    using buildSchema_name_age by (simp add: app_250_def)
  have ops: "handleExtract_ops app_250 backend_ok =
    ([Upload \<lparr>call_files = replicate 100 (), call_batch_id = None\<rparr>,
      Upload \<lparr>call_files = replicate 100 (), call_batch_id = Some (JStr ''b1'')\<rparr>,
      Upload \<lparr>call_files = replicate 50 (), call_batch_id = Some (JStr ''b1'')\<rparr>,
      ExtractAsync (JStr ''b1'') \<lparr>own = [''name'', ''age''], has_prototype = True\<rparr> ''survey'',
      StatusPoll (JStr ''j1''),
      StatusPoll (JStr ''j1'')], NoError)"
    unfolding handleExtract_ops_def up sch poll_backend_ok Let_def
    by (simp add: app_250_def backend_ok_def trim_def is_space_def shouldUseAsync_def LIMITS_def
          extractBatchAsync_def ok_def json_def numeral_2_eq_2)
  show ?thesis
    unfolding handleExtract_def ops
    by (simp add: signal_aborted_def upt_rec_numeral)
qed

lemma handleExtract_ops_independent:
  "map fst (issued (handleExtract a srv t)) = fst (handleExtract_ops a srv) \<and>
   error_shown (handleExtract a srv t) = snd (handleExtract_ops a srv)"
  by (cases "handleExtract_ops a srv") (simp add: handleExtract_def)


lemma upload_one:
  "uploadImagesChunked srv_ok [()] True =
     \<lparr>calls = [\<lparr>call_files = [()], call_batch_id = None\<rparr>], progress = [],
      result = Inr (JObj [(''batch_id'', JStr ''b1'')])\<rparr>"
  by (simp add: uploadImagesChunked_def uploadImages_def CHUNK_SIZE_def srv_ok_def ok_def json_def)

lemma trim_proto: "trim ''__proto__'' = ''__proto__''"
  by (simp add: trim_def is_space_def)

text \<open>
  C9.  An extraction request with an empty schema.  One file and the single field name
  \<^verbatim>\<open>__proto__\<close>: the field is not empty after trimming, so both checks pass; in
  \<open>buildSchema\<close> the assignment \<^verbatim>\<open>schema["__proto__"] = null\<close> sets the prototype and creates
  no property; the file is uploaded and the extraction request is sent with a schema
  without any key.  The rest of the claim holds: without a file, or with fields that
  all trim to the empty string, nothing is sent and an error is shown
  (\<open>handleExtract_validation\<close>); the keys of the schema are distinct, trimmed, non-empty
  field names, and every such name other than \<^verbatim>\<open>__proto__\<close> is a key
  (\<open>buildSchema_keys\<close>, \<open>buildSchema_nonempty\<close>).
\<close>

theorem handleExtract_empty_schema:
  "buildSchema (app_schemaFields app_proto) = \<lparr>own = [], has_prototype = False\<rparr> \<and>
   issued (handleExtract app_proto backend_ok None) =
     [(Upload \<lparr>call_files = [()], call_batch_id = None\<rparr>, False),
      (ExtractAsync (JStr ''b1'') \<lparr>own = [], has_prototype = False\<rparr> ''survey'', False),
      (StatusPoll (JStr ''j1''), False),
      (StatusPoll (JStr ''j1''), False)] \<and>
   error_shown (handleExtract app_proto backend_ok None) = NoError"
proof -
  have up: "uploadImagesChunked (upload_responses backend_ok) (app_files app_proto) True =
     \<lparr>calls = [\<lparr>call_files = [()], call_batch_id = None\<rparr>], progress = [],
      result = Inr (JObj [(''batch_id'', JStr ''b1'')])\<rparr>"
    using upload_one by (simp add: backend_ok_def app_proto_def)
  have sch: "buildSchema (app_schemaFields app_proto) = \<lparr>own = [], has_prototype = False\<rparr>"
    by (simp add: app_proto_def buildSchema_def trim_proto assign_null_def)
  have ops: "handleExtract_ops app_proto backend_ok =
    ([Upload \<lparr>call_files = [()], call_batch_id = None\<rparr>,
      ExtractAsync (JStr ''b1'') \<lparr>own = [], has_prototype = False\<rparr> ''survey'',
      StatusPoll (JStr ''j1''),
      StatusPoll (JStr ''j1'')], NoError)"
    unfolding handleExtract_ops_def up sch poll_backend_ok Let_def
    by (simp add: app_proto_def backend_ok_def trim_proto shouldUseAsync_def LIMITS_def
          extractBatchAsync_def ok_def json_def numeral_2_eq_2)
       (simp add: trim_def)
  show ?thesis
    unfolding handleExtract_def ops using sch
    by (simp add: signal_aborted_def upt_rec_numeral)
qed

lemma handleExtract_validation:
  assumes "app_files a = [] \<or> (\<forall>f\<in>set (app_schemaFields a). trim f = [])"
  shows "issued (handleExtract a srv t) = [] \<and> error_shown (handleExtract a srv t) \<noteq> NoError"
proof -
  have "app_files a \<noteq> [] \<Longrightarrow> filter (\<lambda>f. trim f \<noteq> []) (app_schemaFields a) = []"
    using assms by (auto simp: filter_empty_conv)
  then show ?thesis
    by (cases "app_files a = []") (simp_all add: handleExtract_def handleExtract_ops_def)
qed

lemma fold_assign_own:
  "set (own (fold (\<lambda>f sch. if trim f \<noteq> [] then assign_null sch (trim f) else sch) fs sch0)) - {''__proto__''}
     = (set (own sch0) \<union> {trim f |f. f \<in> set fs \<and> trim f \<noteq> []}) - {''__proto__''}"
proof (induction fs arbitrary: sch0)
  case Nil
  show ?case by simp
next
  case (Cons f fs)
  have "set (own (assign_null sch0 (trim f))) - {''__proto__''}
          = (set (own sch0) \<union> {trim f}) - {''__proto__''}"
    by (auto simp: assign_null_def)
  then show ?case using Cons [of "if trim f \<noteq> [] then assign_null sch0 (trim f) else sch0"]
    by (cases "trim f = []") auto
qed

lemma fold_assign_subset:
  "set (own (fold (\<lambda>f sch. if trim f \<noteq> [] then assign_null sch (trim f) else sch) fs sch0))
     \<subseteq> set (own sch0) \<union> {trim f |f. f \<in> set fs \<and> trim f \<noteq> []}"
proof (induction fs arbitrary: sch0)
  case Nil
  show ?case by simp
next
  case (Cons f fs)
  have "set (own (assign_null sch0 (trim f))) \<subseteq> set (own sch0) \<union> {trim f}"
    by (auto simp: assign_null_def)
  then show ?case using Cons [of "if trim f \<noteq> [] then assign_null sch0 (trim f) else sch0"]
    by (cases "trim f = []") auto
qed

lemma fold_assign_distinct:
  "distinct (own sch0) \<Longrightarrow>
   distinct (own (fold (\<lambda>f sch. if trim f \<noteq> [] then assign_null sch (trim f) else sch) fs sch0))"
proof (induction fs arbitrary: sch0)
  case Nil
  then show ?case by simp
next
  case (Cons f fs)
  have "distinct (own (assign_null sch0 (trim f)))"
    using Cons.prems by (auto simp: assign_null_def)
  then show ?case using Cons by simp
qed

lemma buildSchema_keys:
  "distinct (own (buildSchema fs))"
  "set (own (buildSchema fs)) \<subseteq> {trim f |f. f \<in> set fs \<and> trim f \<noteq> []}"
  "set (own (buildSchema fs)) - {''__proto__''} = {trim f |f. f \<in> set fs \<and> trim f \<noteq> []} - {''__proto__''}"
  using fold_assign_distinct [of "\<lparr>own = [], has_prototype = True\<rparr>" fs]
        fold_assign_subset [of fs "\<lparr>own = [], has_prototype = True\<rparr>"]
        fold_assign_own [of fs "\<lparr>own = [], has_prototype = True\<rparr>"]
  by (simp_all add: buildSchema_def)

lemma buildSchema_nonempty:
  assumes "f \<in> set fs" "trim f \<noteq> []" "trim f \<noteq> ''__proto__''"
  shows "own (buildSchema fs) \<noteq> []"
proof -
  have "trim f \<in> {trim f |f. f \<in> set fs \<and> trim f \<noteq> []} - {''__proto__''}"
    using assms by auto
  then have "trim f \<in> set (own (buildSchema fs))"
    using buildSchema_keys(3) [of fs] by blast
  then show ?thesis by auto
qed

section \<open>Properties of the progress percentages\<close>

lemma rne_bounds: "\<lfloor>x\<rfloor> \<le> rne x \<and> rne x \<le> \<lfloor>x\<rfloor> + 1"
  by (simp add: rne_def Let_def)

lemma rne_mono:
  assumes "x \<le> y"
  shows "rne x \<le> rne y"
proof (cases "\<lfloor>x\<rfloor> = \<lfloor>y\<rfloor>")
  case True
  then have "x - of_int \<lfloor>x\<rfloor> \<le> y - of_int \<lfloor>y\<rfloor>" using assms by simp
  then show ?thesis using True by (auto simp: rne_def Let_def)
next
  case False
  then have "\<lfloor>x\<rfloor> < \<lfloor>y\<rfloor>" using floor_mono [OF assms] by simp
  then have "rne x \<le> \<lfloor>y\<rfloor>" using rne_bounds [of x] by simp
  then show ?thesis using rne_bounds [of y] by simp
qed

lemma rne_of_int [simp]: "rne (of_int n) = n"
  by (simp add: rne_def)

lemma expo_bounds:
  assumes "0 < x"
  shows "2 powi (expo x) \<le> x \<and> x < 2 powi (expo x + 1)"
proof -
  obtain a b where q: "quotient_of x = (a, b)" by (cases "quotient_of x")
  have b: "0 < b" using quotient_of_denom_pos [OF q] .
  have x: "x = of_int a / of_int b" using quotient_of_div [OF q] .
  have a: "0 < a" using assms b unfolding x by (simp add: zero_less_divide_iff)
  define d where "d = bitlen a - bitlen b"
  have la: "1 \<le> bitlen a" and lb: "1 \<le> bitlen b"
    using a b by (simp_all add: bitlen_alt_def)
  have pa: "(2::rat) powi (bitlen a - 1) \<le> of_int a" "of_int a < (2::rat) powi (bitlen a)"
  proof -
    have "(2::int) ^ nat (bitlen a - 1) \<le> a" "a < 2 ^ nat (bitlen a)"
      using bitlen_bounds [OF a] by simp_all
    then have "(of_int (2 ^ nat (bitlen a - 1)) :: rat) \<le> of_int a" "(of_int a :: rat) < of_int (2 ^ nat (bitlen a))"
      by (simp_all only: of_int_le_iff of_int_less_iff)
    then show "(2::rat) powi (bitlen a - 1) \<le> of_int a" "of_int a < (2::rat) powi (bitlen a)"
      using la by (simp_all add: power_int_nonneg_exp)
  qed
  have pb: "(2::rat) powi (bitlen b - 1) \<le> of_int b" "of_int b < (2::rat) powi (bitlen b)"
  proof -
    have "(2::int) ^ nat (bitlen b - 1) \<le> b" "b < 2 ^ nat (bitlen b)"
      using bitlen_bounds [OF b] by simp_all
    then have "(of_int (2 ^ nat (bitlen b - 1)) :: rat) \<le> of_int b" "(of_int b :: rat) < of_int (2 ^ nat (bitlen b))"
      by (simp_all only: of_int_le_iff of_int_less_iff)
    then show "(2::rat) powi (bitlen b - 1) \<le> of_int b" "of_int b < (2::rat) powi (bitlen b)"
      using lb by (simp_all add: power_int_nonneg_exp)
  qed
  have bpos: "(0::rat) < of_int b" using b by simp
  have lo: "(2::rat) powi (d - 1) \<le> x"
  proof -
    have "(2::rat) powi (d - 1) * of_int b \<le> 2 powi (d - 1) * 2 powi (bitlen b)"
      using pb(2) by (simp add: mult_left_mono)
    also have "\<dots> = 2 powi (bitlen a - 1)"
      by (simp add: d_def power_int_add [symmetric])
    also have "\<dots> \<le> of_int a" by (rule pa(1))
    finally show ?thesis unfolding x using bpos by (simp add: pos_le_divide_eq)
  qed
  have hi: "x < (2::rat) powi (d + 1)"
  proof -
    have "of_int a < (2::rat) powi (bitlen a)" by (rule pa(2))
    also have "\<dots> = 2 powi (d + 1) * 2 powi (bitlen b - 1)"
      by (simp add: d_def power_int_add [symmetric])
    also have "\<dots> \<le> 2 powi (d + 1) * of_int b"
      using pb(1) by (simp add: mult_left_mono)
    finally show ?thesis unfolding x using bpos by (simp add: pos_divide_less_eq)
  qed
  have e0: "expo x = (if of_int a < of_int b * (2::rat) powi d then d - 1 else d)"
    by (simp add: expo_def q d_def Let_def)
  have "x < 2 powi d \<longleftrightarrow> of_int a < of_int b * (2::rat) powi d"
    unfolding x using bpos by (simp add: pos_divide_less_eq mult.commute)
  then have e: "expo x = (if x < 2 powi d then d - 1 else d)"
    using e0 by simp
  show ?thesis
  proof (cases "x < 2 powi d")
    case True
    then show ?thesis using lo e by simp
  next
    case False
    then show ?thesis using hi e by simp
  qed
qed

lemma expo_mono:
  assumes "0 < x" "x \<le> y"
  shows "expo x \<le> expo y"
proof (rule ccontr)
  assume "\<not> expo x \<le> expo y"
  then have "expo y + 1 \<le> expo x" by simp
  then have "(2::rat) powi (expo y + 1) \<le> 2 powi (expo x)"
    by (intro power_int_increasing) simp_all
  also have "\<dots> \<le> x" using expo_bounds [OF assms(1)] by simp
  also have "\<dots> \<le> y" by (rule assms(2))
  also have "\<dots> < 2 powi (expo y + 1)" using expo_bounds [of y] assms by simp
  finally show False by simp
qed


lemma fl_pos:
  "0 < x \<Longrightarrow> fl x = of_int (rne (x / 2 powi (max (expo x - 52) (- 1074)))) * 2 powi (max (expo x - 52) (- 1074))"
  by (simp add: fl_def Let_def)

lemma fl_nonneg:
  assumes "0 \<le> x"
  shows "0 \<le> fl x"
proof (cases "x = 0")
  case True
  then show ?thesis by (simp add: fl_def)
next
  case False
  then have x: "0 < x" using assms by simp
  have "0 \<le> x / 2 powi (max (expo x - 52) (- 1074))" using x by simp
  then have "rne (of_int 0) \<le> rne (x / 2 powi (max (expo x - 52) (- 1074)))"
    by (intro rne_mono) simp
  then have "0 \<le> rne (x / 2 powi (max (expo x - 52) (- 1074)))"
    unfolding rne_of_int .
  then show ?thesis unfolding fl_pos [OF x] by simp
qed

lemma fl_mono_pos:
  assumes "0 < x" "x \<le> y"
  shows "fl x \<le> fl y"
proof -
  have y: "0 < y" using assms by simp
  define ex where "ex = max (expo x - 52) (- 1074)"
  define ey where "ey = max (expo y - 52) (- 1074)"
  have le: "ex \<le> ey" using expo_mono [OF assms] by (simp add: ex_def ey_def)
  have fx: "fl x = of_int (rne (x / 2 powi ex)) * 2 powi ex"
    using fl_pos [OF assms(1)] by (simp add: ex_def)
  have fy: "fl y = of_int (rne (y / 2 powi ey)) * 2 powi ey"
    using fl_pos [OF y] by (simp add: ey_def)
  show ?thesis
  proof (cases "ex = ey")
    case True
    have "x / 2 powi ey \<le> y / 2 powi ey" using assms(2) by (simp add: divide_right_mono)
    then have "rne (x / 2 powi ey) \<le> rne (y / 2 powi ey)" by (rule rne_mono)
    then have "(of_int (rne (x / 2 powi ey)) :: rat) \<le> of_int (rne (y / 2 powi ey))" by simp
    then show ?thesis unfolding fx fy True by (simp add: mult_right_mono)
  next
    case False
    then have lt: "ex + 1 \<le> ey" using le by simp
    then have big: "- 1074 < ey" by (simp add: ex_def)
    then have ey': "ey = expo y - 52" by (simp add: ey_def)
    have "x < 2 powi (expo x + 1)" using expo_bounds [OF assms(1)] by simp
    also have "\<dots> \<le> 2 powi (ex + 53)"
      by (intro power_int_increasing) (simp_all add: ex_def)
    also have "\<dots> = 2 powi ex * 2 ^ 53"
      by (simp add: power_int_add)
    finally have "x / 2 powi ex \<le> of_int (2 ^ 53)"
      by (simp add: pos_divide_le_eq mult.commute)
    then have "rne (x / 2 powi ex) \<le> rne (of_int (2 ^ 53))" by (rule rne_mono)
    then have "(of_int (rne (x / 2 powi ex)) :: rat) \<le> 2 ^ 53"
      unfolding rne_of_int by (metis of_int_le_iff of_int_numeral of_int_power)
    then have "fl x \<le> 2 ^ 53 * 2 powi ex" unfolding fx by (simp add: mult_right_mono)
    also have "\<dots> = 2 powi (ex + 53)" by (simp add: power_int_add)
    also have "\<dots> \<le> 2 powi (ey + 52)"
      using lt by (intro power_int_increasing) simp_all
    finally have up: "fl x \<le> 2 powi (ey + 52)" .
    have "(2::rat) powi (ey + 52) = 2 powi (expo y)" by (simp add: ey')
    also have "\<dots> \<le> y" using expo_bounds [OF y] by simp
    finally have "2 powi ey * 2 ^ 52 \<le> y" by (simp add: power_int_add)
    then have "of_int (2 ^ 52) \<le> y / 2 powi ey"
      by (simp add: pos_le_divide_eq mult.commute)
    then have "rne (of_int (2 ^ 52)) \<le> rne (y / 2 powi ey)" by (rule rne_mono)
    then have "(2 ^ 52 :: rat) \<le> of_int (rne (y / 2 powi ey))"
      unfolding rne_of_int by (metis of_int_le_iff of_int_numeral of_int_power)
    then have "2 ^ 52 * 2 powi ey \<le> fl y" unfolding fy by (simp add: mult_right_mono)
    then have "2 powi (ey + 52) \<le> fl y" by (simp add: power_int_add mult.commute)
    then show ?thesis using up by simp
  qed
qed

lemma fl_mono:
  assumes "0 \<le> x" "x \<le> y"
  shows "fl x \<le> fl y"
proof (cases "x = 0")
  case True
  then show ?thesis using fl_nonneg [of y] assms by (simp add: fl_def)
next
  case False
  then show ?thesis using fl_mono_pos [of x y] assms by simp
qed

lemma Math_round_mono: "x \<le> y \<Longrightarrow> Math_round x \<le> Math_round y"
  by (simp add: Math_round_def floor_mono)

lemma fl_0 [simp]: "fl 0 = 0" by (simp add: fl_def)
lemma fl_1: "fl 1 = 1" by code_simp
lemma fl_30: "fl 30 = 30" by code_simp

lemma upload_pct_mono:
  assumes "0 < n" "k \<le> k'"
  shows "upload_pct k n \<le> upload_pct k' n"
proof -
  have "(of_nat k :: rat) / of_nat n \<le> of_nat k' / of_nat n"
    using assms by (simp add: divide_right_mono)
  then have "fl (of_nat k / of_nat n) \<le> fl (of_nat k' / of_nat n)"
    by (intro fl_mono) simp_all
  then have "fl (of_nat k / of_nat n) * 30 \<le> fl (of_nat k' / of_nat n) * 30" by simp
  moreover have "0 \<le> fl (of_nat k / of_nat n) * 30"
    using fl_nonneg [of "of_nat k / of_nat n"] by simp
  ultimately have "fl (fl (of_nat k / of_nat n) * 30) \<le> fl (fl (of_nat k' / of_nat n) * 30)"
    by (rule fl_mono [rotated])
  then show ?thesis unfolding upload_pct_def by (rule Math_round_mono)
qed

lemma Math_round_of_int: "Math_round (of_int n) = n"
  unfolding Math_round_def by (rule floor_unique) simp_all

lemma Math_round_nonneg: "0 \<le> x \<Longrightarrow> 0 \<le> Math_round x"
  unfolding Math_round_def by simp

lemma fl_of_int:
  assumes "0 \<le> n" "n < 2 ^ 53"
  shows "fl (of_int n) = of_int n"
proof (cases "n = 0")
  case True
  then show ?thesis by simp
next
  case False
  then have pos: "(0::rat) < of_int n" using assms(1) by simp
  have one: "(1::rat) \<le> of_int n" using False assms(1) by simp
  have up: "(of_int n :: rat) < 2 ^ 53"
    using assms(2) by (metis of_int_less_iff of_int_numeral of_int_power)
  define e where "e = expo (of_int n :: rat)"
  have b: "(2::rat) powi e \<le> of_int n" "(of_int n :: rat) < 2 powi (e + 1)"
    using expo_bounds [OF pos] by (simp_all add: e_def)
  have hi: "e < 53"
  proof (rule ccontr)
    assume "\<not> e < 53"
    then have "(2::rat) powi 53 \<le> 2 powi e" by (intro power_int_increasing) simp_all
    then show False using b(1) up by simp
  qed
  have lo: "0 \<le> e"
  proof (rule ccontr)
    assume "\<not> 0 \<le> e"
    then have "(2::rat) powi (e + 1) \<le> 2 powi 0" by (intro power_int_increasing) simp_all
    then show False using b(2) one by simp
  qed
  define k where "k = nat (52 - e)"
  have k: "e - 52 = - int k" using hi by (simp add: k_def)
  have m: "max (e - 52) (- 1074) = - int k" using lo k by simp
  have p: "(2::rat) powi (- int k) = 1 / 2 ^ k" by (simp add: power_int_minus_divide)
  have "fl (of_int n) = of_int (rne (of_int n / (1 / 2 ^ k))) * (1 / 2 ^ k)"
    using fl_pos [OF pos] unfolding e_def [symmetric] m p .
  also have "of_int n / (1 / 2 ^ k) = (of_int (n * 2 ^ k) :: rat)" by simp
  also have "of_int (rne (of_int (n * 2 ^ k))) * (1 / 2 ^ k) = (of_int n :: rat)"
    unfolding rne_of_int by simp
  finally show ?thesis .
qed

lemma extract_pct_mono:
  assumes "0 \<le> p" "p \<le> p'"
  shows "extract_pct p \<le> extract_pct p'"
proof -
  have "p / 100 \<le> p' / 100" using assms by simp
  then have "fl (p / 100) \<le> fl (p' / 100)"
    using assms by (intro fl_mono) simp_all
  then have "fl (p / 100) * 70 \<le> fl (p' / 100) * 70" by simp
  moreover have nn: "0 \<le> fl (p / 100) * 70"
    using fl_nonneg [of "p / 100"] assms by simp
  ultimately have "fl (fl (p / 100) * 70) \<le> fl (fl (p' / 100) * 70)"
    by (rule fl_mono [rotated])
  then have "Math_round (fl (fl (p / 100) * 70)) \<le> Math_round (fl (fl (p' / 100) * 70))"
    by (rule Math_round_mono)
  then have "(30::rat) + of_int (Math_round (fl (fl (p / 100) * 70)))
               \<le> 30 + of_int (Math_round (fl (fl (p' / 100) * 70)))" by simp
  moreover have "(0::rat) \<le> 30 + of_int (Math_round (fl (fl (p / 100) * 70)))"
    using Math_round_nonneg [OF fl_nonneg [OF nn]] by simp
  ultimately show ?thesis unfolding extract_pct_def by (rule fl_mono [rotated])
qed

lemma fl_70: "fl 70 = 70" by code_simp

lemma extract_pct_exact_sum:
  assumes "0 \<le> p" "p \<le> 100"
  shows "extract_pct p = 30 + of_int (Math_round (fl (fl (p / 100) * 70)))"
    and "0 \<le> Math_round (fl (fl (p / 100) * 70))" "Math_round (fl (fl (p / 100) * 70)) \<le> 70"
proof -
  have "fl (p / 100) \<le> fl 1" using assms by (intro fl_mono) simp_all
  then have a: "fl (p / 100) * 70 \<le> 70" by (simp add: fl_1)
  have nn: "0 \<le> fl (p / 100) * 70" using fl_nonneg [of "p / 100"] assms by simp
  have "fl (fl (p / 100) * 70) \<le> fl 70" using nn a by (rule fl_mono)
  then have "Math_round (fl (fl (p / 100) * 70)) \<le> Math_round (of_int 70)"
    using Math_round_mono [of "fl (fl (p / 100) * 70)" "of_int 70"] by (simp add: fl_70)
  then show hi: "Math_round (fl (fl (p / 100) * 70)) \<le> 70" by (simp only: Math_round_of_int)
  show lo: "0 \<le> Math_round (fl (fl (p / 100) * 70))"
    using Math_round_nonneg [OF fl_nonneg [OF nn]] .
  have "fl (of_int (30 + Math_round (fl (fl (p / 100) * 70)))) = of_int (30 + Math_round (fl (fl (p / 100) * 70)))"
    using lo hi by (intro fl_of_int) simp_all
  then show "extract_pct p = 30 + of_int (Math_round (fl (fl (p / 100) * 70)))"
    by (simp add: extract_pct_def)
qed

lemma upload_pct_complete: "0 < n \<Longrightarrow> upload_pct n n = 30"
  using Math_round_of_int [of 30] by (simp add: upload_pct_def fl_1 fl_30)

lemma extract_pct_start: "extract_pct 0 = 30"
  using Math_round_of_int [of 0] by (simp add: extract_pct_def fl_30)

lemma progress_values:
  "map (\<lambda>k. upload_pct k 250) [0, 100, 200, 250] = [0, 12, 24, 30]"
  "map extract_pct [0, 10, 55, 100] = [30, 37, 69, 100]"
  by code_simp+

lemma progress_formulas:
  "(0 < n \<and> k \<le> k' \<and> k' \<le> n \<longrightarrow> upload_pct k n \<le> upload_pct k' n) \<and>
   (0 \<le> p \<and> p \<le> p' \<and> p' \<le> 100 \<longrightarrow> extract_pct p \<le> extract_pct p') \<and>
   (0 < n \<longrightarrow> upload_pct n n = 30) \<and>
   extract_pct 0 = 30"
  using upload_pct_mono [of n k k'] extract_pct_mono [of p p'] upload_pct_complete [of n]
        extract_pct_start
  by simp

lemma polling_callback_held:
  assumes "\<not> nullish progressData"
  shows "held_after st (polling_callback progressData) =
           \<lparr>pg_percentage = Copied (field ''percentage'' progressData),
            pg_stage = field ''stage'' progressData,
            pg_backendStage = field ''stage'' progressData\<rparr>"
  using assms by (simp add: held_after_def polling_callback_def handleProgressUpdate_def)

text \<open>
  C3.  The percentage held during extraction is not the composed one.  After the job was
  queued the state holds 30.  The first poll brings a payload with the job percentage
  10: the polling callback computes \<open>30 + round (10 / 100 * 70) = 37\<close> and sets it, and then
  calls \<open>handleProgressUpdate\<close>, whose own \<^verbatim>\<open>setProgress\<close> replaces the state by the payload.
  When the callback returns the state holds the percentage 10 of the job and the stage
  of the server: the overall percentage is \<open>p\<close>, not \<open>30 + round (p / 100 * 70)\<close>, and it
  has dropped from 30 to 10.  The two formulas themselves are as the claim says: both
  are monotone, and both are 30 at the boundary (\<open>progress_formulas\<close>,
  \<open>progress_values\<close>).
\<close>

theorem polling_callback_overwrites_percentage:
  "polling_callback payload_10 =
     [\<lparr>pg_percentage = Pct 37, pg_stage = JStr ''extraction'', pg_backendStage = JStr ''OCR''\<rparr>,
      \<lparr>pg_percentage = Copied (JNum 10), pg_stage = JStr ''OCR'', pg_backendStage = JStr ''OCR''\<rparr>] \<and>
   pg_percentage starting_extraction = Pct 30 \<and>
   pg_percentage (held_after starting_extraction (polling_callback payload_10)) = Copied (JNum 10) \<and>
   pg_stage (held_after starting_extraction (polling_callback payload_10)) = JStr ''OCR'' \<and>
   extract_pct 10 = 37"
proof -
  have v: "extract_pct 10 = 37" by code_simp
  show ?thesis
    by (simp add: polling_callback_def handleProgressUpdate_def payload_10_def held_after_def
          starting_extraction_def v)
qed

end
